theory Spec2Isabelle
  imports Complex_Main "HOL-Library.Sublist"
begin

section \<open>Strings, errors and external calls\<close>

text \<open>
  The tool \<open>prediction_sum_url_content.py\<close> works on Python strings and lists. Strings are
  modelled as \<open>string\<close> (characters with code points below 256), Python exceptions as
  values of \<open>py_error\<close>, and a function that may raise returns \<open>py_error + 'a\<close> with
  \<open>Inl\<close> for the exception. A function that calls an external service returns,
  next to its result, the list of the calls it made, in order.
\<close>

type_synonym url = string

datatype py_error =
    KeyError string
  | ValueError string
  | ReadTimeout
  | OtherException string

datatype call =
    ModerationCreate string
  | ChatCompletionCreate string string
  | CseList string
  | RequestsGet url
  | LoadModels

text \<open>\<open>s.endswith(suf)\<close>\<close>

definition endswith :: "string \<Rightarrow> string \<Rightarrow> bool" where
  "endswith s suf = suffix suf s"

text \<open>\<open>entity in sentence\<close> on strings: \<open>entity\<close> occurs in \<open>sentence\<close> as a contiguous run.\<close>

fun contains :: "string \<Rightarrow> string \<Rightarrow> bool" where
  "contains [] entity = (entity = [])"
| "contains (c # sentence) entity = (prefix entity (c # sentence) \<or> contains sentence entity)"

text \<open>The characters below 256 for which \<open>str.isspace\<close> holds; \<open>s.split()\<close> splits at their runs.\<close>

definition is_space :: "char \<Rightarrow> bool" where
  "is_space c = (c \<in> set [CHR 0x09, CHR 0x0A, CHR 0x0B, CHR 0x0C, CHR 0x0D, CHR 0x1C, CHR 0x1D,
                           CHR 0x1E, CHR 0x1F, CHR 0x20, CHR 0x85, CHR 0xA0])"

text \<open>\<open>s.split()\<close>: the maximal runs of non-whitespace characters; \<open>cur\<close> is the run being read.\<close>

fun split_ws_from :: "string \<Rightarrow> string \<Rightarrow> string list" where
  "split_ws_from cur [] = (if cur = [] then [] else [cur])"
| "split_ws_from cur (c # cs) =
     (if is_space c then (if cur = [] then split_ws_from [] cs else cur # split_ws_from [] cs)
      else split_ws_from (cur @ [c]) cs)"

definition split_ws :: "string \<Rightarrow> string list" where
  "split_ws s = split_ws_from [] s"

text \<open>\<open>s.split(d)\<close> for a single character \<open>d\<close>: empty pieces are kept, \<open>"".split(d) = [""]\<close>.\<close>

fun split_on :: "char \<Rightarrow> string \<Rightarrow> string list" where
  "split_on d [] = [[]]"
| "split_on d (c # cs) =
     (if c = d then [] # split_on d cs
      else (case split_on d cs of [] \<Rightarrow> [[c]] | piece # pieces \<Rightarrow> (c # piece) # pieces))"

text \<open>\<open>sep.join(xs)\<close>\<close>

fun join :: "string \<Rightarrow> string list \<Rightarrow> string" where
  "join sep [] = []"
| "join sep [x] = x"
| "join sep (x # y # ys) = x @ sep @ join sep (y # ys)"

text \<open>\<open>xs[:n]\<close> for a Python integer \<open>n\<close>: a negative \<open>n\<close> counts from the end.\<close>

definition slice_to :: "'a list \<Rightarrow> int \<Rightarrow> 'a list" where
  "slice_to xs n = (if 0 \<le> n then take (nat n) xs else take (length xs - nat (- n)) xs)"

text \<open>
  \<open>sorted(xs, key=key, reverse=True)\<close>: CPython reverses the list, sorts it stably in
  ascending order of the keys, and reverses the outcome.
\<close>

definition sorted_reverse :: "('a \<Rightarrow> 'k::linorder) \<Rightarrow> 'a list \<Rightarrow> 'a list" where
  "sorted_reverse key xs = rev (sort_key key (rev xs))"

section \<open>The world outside\<close>

text \<open>
  The services the tool calls are the fields of \<open>world\<close>. Each gives the outcome of the call
  for its arguments: an exception or the value read from the response.
  \<^item> \<open>moderation_create p\<close>: \<open>openai.Moderation.create(p)["results"][0]["flagged"]\<close>;
  \<^item> \<open>chat_completion_create model p temperature max_tokens\<close>: the content of the first
    choice of \<open>openai.ChatCompletion.create\<close> with the user message \<open>p\<close>;
  \<^item> \<open>json_queries s\<close>: \<open>json.loads(s)["queries"]\<close>;
  \<^item> \<open>cse_execute api_key engine query\<close>: the Custom Search request of \<open>search_google\<close>
    (with \<open>num = 3\<close>, as \<open>get_urls_from_queries\<close> calls it),
    of whose response only the entry \<open>"items"\<close> is read: \<open>None\<close> when the response has no
    such entry, else the links of the items in order;
  \<^item> \<open>list_of_set xs\<close>: \<open>list(set(xs))\<close>, whose order depends on the hashes of the strings;
  \<^item> \<open>load_models\<close>: the three loads at the head of \<open>extract_texts\<close>
    (\<open>AutoModel.from_pretrained\<close>, \<open>AutoTokenizer.from_pretrained\<close>, \<open>spacy.load\<close>);
  \<^item> \<open>requests_get url\<close>: what \<open>future.result()\<close> gives for the future of
    \<open>requests.get(url, timeout=10)\<close>: the exception of the request or its response;
  \<^item> \<open>extract_text html prompt\<close>: the call of \<open>extract_text\<close> on a response body, which
    returns the dated summary or raises (a parse or an encoder failure);
  \<^item> \<open>format_url_query_prompt\<close> and \<open>format_prediction_prompt\<close>: \<open>URL_QUERY_PROMPT.format\<close>
    and \<open>PREDICTION_PROMPT.format\<close>, the latter on the user prompt, the additional
    information and today's date; \<open>today_date\<close> is \<open>datetime.today().strftime('%Y-%m-%d')\<close>.
\<close>

datatype response = Response (status_code: int) (response_text: string)

record world =
  moderation_create :: "string \<Rightarrow> py_error + bool"
  chat_completion_create :: "string \<Rightarrow> string \<Rightarrow> real \<Rightarrow> int \<Rightarrow> py_error + string"
  json_queries :: "string \<Rightarrow> py_error + string list"
  cse_execute :: "string \<Rightarrow> string \<Rightarrow> string \<Rightarrow> py_error + url list option"
  list_of_set :: "url list \<Rightarrow> url list"
  load_models :: "py_error + unit"
  requests_get :: "url \<Rightarrow> py_error + response"
  extract_text :: "string \<Rightarrow> string \<Rightarrow> py_error + string"
  format_url_query_prompt :: "string \<Rightarrow> string"
  format_prediction_prompt :: "string \<Rightarrow> string \<Rightarrow> string \<Rightarrow> string"
  today_date :: string


section \<open>URL resolution\<close>

definition search_google :: "world \<Rightarrow> string \<Rightarrow> string \<Rightarrow> string \<Rightarrow> py_error + url list" where
  "search_google w query api_key engine =
     (case cse_execute w api_key engine query of
        Inl e \<Rightarrow> Inl e
      | Inr search \<Rightarrow>
          (case search of
             None \<Rightarrow> Inl (KeyError ''items'')
           | Some links \<Rightarrow> Inr links))"

text \<open>
  The loop of \<open>get_urls_from_queries\<close> that appends every URL of every query to \<open>results\<close>.
  Nothing catches an exception of \<open>search_google\<close>: it ends the loop and the function.
\<close>

fun collect_results ::
  "world \<Rightarrow> string list \<Rightarrow> string \<Rightarrow> string \<Rightarrow> url list \<Rightarrow> (py_error + url list) \<times> call list" where
  "collect_results w [] api_key engine results = (Inr results, [])"
| "collect_results w (query # queries) api_key engine results =
     (case search_google w query api_key engine of
        Inl e \<Rightarrow> (Inl e, [CseList query])
      | Inr urls \<Rightarrow>
          (let (r, calls) = collect_results w queries api_key engine (results @ urls)
           in (r, CseList query # calls)))"

definition get_urls_from_queries ::
  "world \<Rightarrow> string list \<Rightarrow> string \<Rightarrow> string \<Rightarrow> (py_error + url list) \<times> call list" where
  "get_urls_from_queries w queries api_key engine =
     (let (r, calls) = collect_results w queries api_key engine []
      in case r of
           Inl e \<Rightarrow> (Inl e, calls)
         | Inr results \<Rightarrow>
             (Inr (filter (\<lambda>url. \<not> endswith url ''.pdf'') (list_of_set w results)), calls))"



section \<open>Date extraction\<close>

text \<open>
  A parsed document is the list of its tags in document order, the order in which
  \<open>soup.find\<close> visits them; a tag has a name and its attributes.
\<close>

record tag =
  tag_name :: string
  tag_attrs :: "(string \<times> string) list"

type_synonym soup = "tag list"

text \<open>\<open>soup.find(name, attrs)\<close>: the first tag of that name with all the attribute values.\<close>

definition soup_find :: "soup \<Rightarrow> string \<Rightarrow> (string \<times> string) list \<Rightarrow> tag option" where
  "soup_find soup nm attrs =
     find (\<lambda>t. tag_name t = nm \<and> list_all (\<lambda>(k, v). map_of (tag_attrs t) k = Some v) attrs) soup"

text \<open>\<open>tag.get(key, dflt)\<close>\<close>

definition tag_get :: "tag \<Rightarrow> string \<Rightarrow> string \<Rightarrow> string" where
  "tag_get t key dflt = (case map_of (tag_attrs t) key of None \<Rightarrow> dflt | Some v \<Rightarrow> v)"

text \<open>
  \<open>soup.find("meta", {"name": name}) or soup.find("meta", {"property": name})\<close>;
  a tag is truthy, so the second search runs only when the first finds nothing.
\<close>

definition find_meta :: "soup \<Rightarrow> string \<Rightarrow> tag option" where
  "find_meta soup name =
     (case soup_find soup ''meta'' [(''name'', name)] of
        Some meta_tag \<Rightarrow> Some meta_tag
      | None \<Rightarrow> soup_find soup ''meta'' [(''property'', name)])"

definition release_date_names :: "string list" where
  "release_date_names =
    [''date'', ''pubdate'', ''publishdate'', ''OriginalPublicationDate'',
     ''article:published_time'', ''sailthru.date'', ''article.published'',
     ''published-date'', ''og:published_time'', ''publication_date'', ''publishedDate'',
     ''dc.date'', ''DC.date'', ''article:published'', ''article_date_original'',
     ''cXenseParse:recs:publishtime'', ''DATE_PUBLISHED'', ''pub-date'', ''pub_date'',
     ''datePublished'', ''date_published'', ''time_published'', ''article:published_date'',
     ''parsely-pub-date'', ''publish-date'', ''pubdatetime'', ''published_time'',
     ''publishedtime'', ''article_date'', ''created_date'', ''published_at'',
     ''og:published_time'', ''og:release_date'', ''article:published_time'',
     ''og:publication_date'', ''og:pubdate'', ''article:publication_date'',
     ''product:availability_starts'', ''product:release_date'', ''event:start_date'',
     ''event:release_date'', ''og:time_published'', ''og:start_date'', ''og:created'',
     ''og:creation_date'', ''og:launch_date'', ''og:first_published'',
     ''og:original_publication_date'', ''article:published'', ''article:pub_date'',
     ''news:published_time'', ''news:publication_date'', ''blog:published_time'',
     ''blog:publication_date'', ''report:published_time'', ''report:publication_date'',
     ''webpage:published_time'', ''webpage:publication_date'', ''post:published_time'',
     ''post:publication_date'', ''item:published_time'', ''item:publication_date'']"

definition update_date_names :: "string list" where
  "update_date_names =
    [''lastmod'', ''lastmodified'', ''last-modified'', ''updated'', ''dateModified'',
     ''article:modified_time'', ''modified_date'', ''article:modified'',
     ''og:updated_time'', ''mod_date'', ''modifiedDate'', ''lastModifiedDate'',
     ''lastUpdate'', ''last_updated'', ''LastUpdated'', ''UpdateDate'', ''updated_date'',
     ''revision_date'', ''sentry:revision'', ''article:modified_date'', ''date_updated'',
     ''time_updated'', ''lastUpdatedDate'', ''last-update-date'', ''lastupdate'',
     ''dateLastModified'', ''article:update_time'', ''modified_time'',
     ''last_modified_date'', ''date_last_modified'', ''og:updated_time'',
     ''og:modified_time'', ''article:modified_time'', ''og:modification_date'',
     ''og:mod_time'', ''article:modification_date'', ''product:availability_ends'',
     ''product:modified_date'', ''event:end_date'', ''event:updated_date'',
     ''og:time_modified'', ''og:end_date'', ''og:last_modified'', ''og:modification_date'',
     ''og:revision_date'', ''og:last_updated'', ''og:most_recent_update'',
     ''article:updated'', ''article:mod_date'', ''news:updated_time'',
     ''news:modification_date'', ''blog:updated_time'', ''blog:modification_date'',
     ''report:updated_time'', ''report:modification_date'', ''webpage:updated_time'',
     ''webpage:modification_date'', ''post:updated_time'', ''post:modification_date'',
     ''item:updated_time'', ''item:modification_date'']"

text \<open>
  Each of the two loops of \<open>get_date\<close> runs over all its names, without a \<open>break\<close>, and
  assigns the date at every name for which a meta tag is found; \<open>date\<close> is the value of
  the variable so far.
\<close>

fun scan_names :: "soup \<Rightarrow> string list \<Rightarrow> string \<Rightarrow> string" where
  "scan_names soup [] date = date"
| "scan_names soup (name # names) date =
     (case find_meta soup name of
        Some meta_tag \<Rightarrow> scan_names soup names (tag_get meta_tag ''content'' '''')
      | None \<Rightarrow> scan_names soup names date)"

text \<open>The values of \<open>release_date\<close> and \<open>modified_date\<close> when \<open>get_date\<close> formats them.\<close>

definition get_date_fields :: "soup \<Rightarrow> string \<times> string" where
  "get_date_fields soup =
     (let modified_date = scan_names soup update_date_names ''unknown'';
          release_date = scan_names soup release_date_names ''unknown''
      in if release_date = ''unknown'' \<and> modified_date = ''unknown''
         then (case soup_find soup ''time'' [] of
                 Some time_tag \<Rightarrow> (tag_get time_tag ''datetime'' '''', modified_date)
               | None \<Rightarrow> (release_date, modified_date))
         else (release_date, modified_date))"

definition get_date :: "soup \<Rightarrow> string" where
  "get_date soup =
     (let (release_date, modified_date) = get_date_fields soup
      in ''Release date '' @ release_date @ '', Modified date '' @ modified_date)"

text \<open>
  The rule of the specification for one list of names: the content of the first name, in
  list order, for which a meta tag is found. Only used to compare with \<open>scan_names\<close>.
\<close>

definition first_hit_spec :: "soup \<Rightarrow> string list \<Rightarrow> string \<Rightarrow> string" where
  "first_hit_spec soup names dflt =
     (case find (\<lambda>name. find_meta soup name \<noteq> None) names of
        None \<Rightarrow> dflt
      | Some name \<Rightarrow> tag_get (the (find_meta soup name)) ''content'' '''')"

section \<open>Relevance ranking\<close>

text \<open>
  \<open>get_website_summary\<close> calls the encoder (tokenizer and model, mean-pooled) and the
  spaCy pipeline. Both are services with a state of their own (\<open>'w\<close>: random generators,
  caches), so each call takes the state and returns the next one, in the order of the
  calls of the source. \<open>'e\<close> is the type of the embeddings, \<open>'s\<close> that of the similarity
  scores (Python floats), of which only the order is used:
  \<^item> \<open>encode s\<close>: \<open>model(**tokenizer(s, ...)).last_hidden_state.mean(dim=1)\<close>;
  \<^item> \<open>nlp text\<close>: the texts of \<open>doc.sents\<close> and of \<open>doc.ents\<close> for \<open>doc = nlp(text)\<close>;
  \<^item> \<open>cosine_similarity a b\<close>: \<open>torch.cosine_similarity(a, b).item()\<close>;
  \<^item> \<open>boost s\<close>: the float \<open>s + 0.05\<close>; \<open>threshold\<close>: the float \<open>0.7\<close>.
\<close>

record ('w, 'e, 's) ranker =
  encode :: "string \<Rightarrow> 'w \<Rightarrow> 'e \<times> 'w"
  nlp :: "string \<Rightarrow> 'w \<Rightarrow> (string list \<times> string list) \<times> 'w"
  cosine_similarity :: "'e \<Rightarrow> 'e \<Rightarrow> 's"
  boost :: "'s \<Rightarrow> 's"
  threshold :: "'s"

text \<open>The loop that fills \<open>similarities\<close>, one score per sentence.\<close>

fun similarities_loop ::
  "('w, 'e, 's) ranker \<Rightarrow> 'e \<Rightarrow> string list \<Rightarrow> string list \<Rightarrow> 'w \<Rightarrow> 's list \<times> 'w" where
  "similarities_loop r question_embedding entities [] w = ([], w)"
| "similarities_loop r question_embedding entities (sentence # sentences) w =
     (let (sentence_embedding, w1) = encode r sentence w;
          similarity = cosine_similarity r question_embedding sentence_embedding;
          similarity = (if list_ex (\<lambda>entity. contains sentence entity) entities
                        then boost r similarity else similarity);
          (similarities, w2) = similarities_loop r question_embedding entities sentences w1
      in (similarity # similarities, w2))"

text \<open>The pairs of \<open>zip(sentences, similarities)\<close> in descending order of the score.\<close>

definition ranked_pairs :: "string list \<Rightarrow> ('s::linorder) list \<Rightarrow> (string \<times> 's) list" where
  "ranked_pairs sentences similarities = sorted_reverse snd (zip sentences similarities)"

text \<open>Of these the pairs above the threshold, and the first four: \<open>relevant_sentences[:4]\<close>.\<close>

definition relevant_pairs :: "('s::linorder) \<Rightarrow> string list \<Rightarrow> 's list \<Rightarrow> (string \<times> 's) list" where
  "relevant_pairs thr sentences similarities =
     filter (\<lambda>(sent, sim). sim > thr) (ranked_pairs sentences similarities)"

definition top_pairs :: "('s::linorder) \<Rightarrow> string list \<Rightarrow> 's list \<Rightarrow> (string \<times> 's) list" where
  "top_pairs thr sentences similarities = take 4 (relevant_pairs thr sentences similarities)"

text \<open>The join of the top sentences, cut to \<open>max_words\<close> pieces between single spaces.\<close>

definition summary_output :: "string list \<Rightarrow> int \<Rightarrow> string" where
  "summary_output top_sentences max_words =
     (let output = join '' '' top_sentences;
          output_words = split_on CHR '' '' output
      in if int (length output_words) > max_words
         then join '' '' (slice_to output_words max_words)
         else output)"

text \<open>
  The sentences kept for ranking: those of at least five whitespace-delimited tokens,
  and of these the first 300.
\<close>

definition candidate_sentences :: "string list \<Rightarrow> string list" where
  "candidate_sentences sents = take 300 (filter (\<lambda>sent. length (split_ws sent) \<ge> 5) sents)"

text \<open>
  The second loop over the sorted pairs only prints, and is left out.
\<close>

definition get_website_summary ::
  "('w, 'e, 's::linorder) ranker \<Rightarrow> string \<Rightarrow> string \<Rightarrow> int \<Rightarrow> 'w \<Rightarrow> string \<times> 'w" where
  "get_website_summary r text prompt max_words w =
     (if prompt = [] \<or> text = [] then ([], w)
      else
        (let (question_embedding, w1) = encode r prompt w;
             ((sents, entities), w2) = nlp r text w1;
             sentences = candidate_sentences sents;
             (similarities, w3) = similarities_loop r question_embedding entities sentences w2
         in (summary_output (map fst (top_pairs (threshold r) sentences similarities)) max_words,
             w3)))"

text \<open>The number of words of a string, a word being a whitespace-delimited token.\<close>

definition word_count_ws :: "string \<Rightarrow> nat" where
  "word_count_ws s = length (split_ws s)"

text \<open>The number of non-empty pieces of a string between single spaces.\<close>

definition word_count_sp :: "string \<Rightarrow> nat" where
  "word_count_sp s = length (filter (\<lambda>piece. piece \<noteq> []) (split_on CHR '' '' s))"

text \<open>
  A service is deterministic when its result does not depend on the state it is called in.
\<close>

definition deterministic :: "('a \<Rightarrow> 'w \<Rightarrow> 'b \<times> 'w) \<Rightarrow> bool" where
  "deterministic f = (\<forall>x w w'. fst (f x w) = fst (f x w'))"

section \<open>Fetching and summarising the documents\<close>

definition max_allowed :: nat where
  "max_allowed = 45"

text \<open>
  \<open>process_in_batches\<close> yields the windows \<open>urls[i : i + window]\<close> for \<open>i\<close> in
  \<open>range(0, len(urls), window)\<close>; \<open>window\<close> is 5 in the only call, and positive here.
\<close>

function process_in_batches :: "url list \<Rightarrow> nat \<Rightarrow> url list list" where
  "process_in_batches urls window =
     (if urls = [] \<or> window = 0 then []
      else take window urls # process_in_batches (drop window urls) window)"
  by pat_completeness auto
termination
  by (relation "measure (\<lambda>(urls, window). length urls)") auto

text \<open>
  The inner loop of \<open>extract_texts\<close> over the futures of one window, with the values of
  \<open>extracted_texts\<close> and \<open>count\<close>; the third component of the result is \<open>stop\<close>.
  Both \<open>except\<close> clauses print and go on with the next future.
\<close>

fun process_urls ::
  "world \<Rightarrow> string \<Rightarrow> url list \<Rightarrow> string list \<Rightarrow> nat \<Rightarrow> string list \<times> nat \<times> bool" where
  "process_urls w prompt [] extracted_texts count = (extracted_texts, count, False)"
| "process_urls w prompt (url # batch) extracted_texts count =
     (case requests_get w url of
        Inl e \<Rightarrow> process_urls w prompt batch extracted_texts count
      | Inr result \<Rightarrow>
          if status_code result \<noteq> 200 then process_urls w prompt batch extracted_texts count
          else
            (case extract_text w (response_text result) prompt of
               Inl e \<Rightarrow> process_urls w prompt batch extracted_texts count
             | Inr extracted_text \<Rightarrow>
                 (let extracted_texts = extracted_texts @ [url @ [CHR 0x0A] @ extracted_text];
                      count = count + 1
                  in if count \<ge> max_allowed then (extracted_texts, count, True)
                     else process_urls w prompt batch extracted_texts count)))"

text \<open>
  The outer loop. The generator submits the requests of a window when the loop asks for
  that window, so the calls of a window are made when its turn comes.
\<close>

fun process_batches ::
  "world \<Rightarrow> string \<Rightarrow> url list list \<Rightarrow> string list \<Rightarrow> nat \<Rightarrow> string list \<times> call list" where
  "process_batches w prompt [] extracted_texts count = (extracted_texts, [])"
| "process_batches w prompt (batch # batches) extracted_texts count =
     (let (extracted_texts, count, stop) = process_urls w prompt batch extracted_texts count
      in if stop then (extracted_texts, map RequestsGet batch)
         else
           (let (texts, calls) = process_batches w prompt batches extracted_texts count
            in (texts, map RequestsGet batch @ calls)))"

definition extract_texts ::
  "world \<Rightarrow> url list \<Rightarrow> string \<Rightarrow> (py_error + string list) \<times> call list" where
  "extract_texts w urls prompt =
     (case load_models w of
        Inl e \<Rightarrow> (Inl e, [LoadModels])
      | Inr u \<Rightarrow>
          (let (texts, calls) = process_batches w prompt (process_in_batches urls 5) [] 0
           in (Inr texts, LoadModels # calls)))"

text \<open>
  What one URL adds to the digest when its turn comes and the cap is not reached:
  nothing, or one snippet.
\<close>

definition snippet_of :: "world \<Rightarrow> string \<Rightarrow> url \<Rightarrow> string option" where
  "snippet_of w prompt url =
     (case requests_get w url of
        Inl e \<Rightarrow> None
      | Inr result \<Rightarrow>
          if status_code result = 200
          then (case extract_text w (response_text result) prompt of
                  Inl e \<Rightarrow> None
                | Inr extracted_text \<Rightarrow> Some (url @ [CHR 0x0A] @ extracted_text))
          else None)"

text \<open>The snippets that the URLs of a list add, in the order of the list.\<close>

definition snippets :: "world \<Rightarrow> string \<Rightarrow> url list \<Rightarrow> string list" where
  "snippets w prompt urls = List.map_filter (snippet_of w prompt) urls"

section \<open>The tool\<close>

definition ALLOWED_TOOLS :: "string list" where
  "ALLOWED_TOOLS = [''prediction-offline-sum-url-content'', ''prediction-online-sum-url-content'']"

definition TOOL_TO_ENGINE :: "(string \<times> string) list" where
  "TOOL_TO_ENGINE =
     [(''prediction-offline-sum-url-content'', ''gpt-3.5-turbo''),
      (''prediction-online-sum-url-content'', ''gpt-3.5-turbo'')]"

definition fetch_additional_information ::
  "world \<Rightarrow> string \<Rightarrow> string \<Rightarrow> real \<Rightarrow> int \<Rightarrow> string \<Rightarrow> string \<Rightarrow> (py_error + string) \<times> call list" where
  "fetch_additional_information w prompt engine temperature max_tokens google_api_key google_engine =
     (let url_query_prompt = format_url_query_prompt w prompt;
          calls0 = [ModerationCreate url_query_prompt]
      in case moderation_create w url_query_prompt of
           Inl e \<Rightarrow> (Inl e, calls0)
         | Inr flagged \<Rightarrow>
             if flagged then (Inr [], calls0)
             else
               (let calls1 = calls0 @ [ChatCompletionCreate ''gpt-3.5-turbo'' url_query_prompt]
                in case chat_completion_create w ''gpt-3.5-turbo'' url_query_prompt (7 / 10) max_tokens of
                     Inl e \<Rightarrow> (Inl e, calls1)
                   | Inr content \<Rightarrow>
                       (case json_queries w content of
                          Inl e \<Rightarrow> (Inl e, calls1)
                        | Inr queries \<Rightarrow>
                            (let (r, calls2) = get_urls_from_queries w queries google_api_key google_engine
                             in case r of
                                  Inl e \<Rightarrow> (Inl e, calls1 @ calls2)
                                | Inr urls \<Rightarrow>
                                    (let (t, calls3) = extract_texts w urls prompt
                                     in case t of
                                          Inl e \<Rightarrow> (Inl e, calls1 @ calls2 @ calls3)
                                        | Inr texts \<Rightarrow>
                                            (Inr (join [CHR 0x0A, CHR 0x0A] (map (\<lambda>text. ''- '' @ text) texts)),
                                             calls1 @ calls2 @ calls3))))))"

text \<open>
  The keyword arguments of \<open>run\<close>: a dictionary, of which the entries the tool reads
  are the fields; \<open>None\<close> is an absent key.
\<close>

record kwargs =
  kw_tool :: "string option"
  kw_prompt :: "string option"
  kw_max_tokens :: "int option"
  kw_temperature :: "real option"
  kw_api_keys :: "(string \<times> string) list option"

text \<open>The conditional expression that gives \<open>additional_information\<close> in \<open>run\<close>.\<close>

definition additional_information_of ::
  "world \<Rightarrow> string \<Rightarrow> string \<Rightarrow> string \<Rightarrow> real \<Rightarrow> int \<Rightarrow> (string \<times> string) list
     \<Rightarrow> (py_error + string) \<times> call list" where
  "additional_information_of w tool prompt engine temperature max_tokens api_keys =
     (if tool = ''prediction-online-sum-url-content''
      then
        (case map_of api_keys ''google_api_key'' of
           None \<Rightarrow> (Inl (KeyError ''google_api_key''), [])
         | Some google_api_key \<Rightarrow>
             (case map_of api_keys ''google_engine_id'' of
                None \<Rightarrow> (Inl (KeyError ''google_engine_id''), [])
              | Some google_engine \<Rightarrow>
                  fetch_additional_information w prompt engine temperature max_tokens
                    google_api_key google_engine))
      else (Inr [], []))"

text \<open>
  \<open>run\<close> returns the pair of the answer and \<open>None\<close>. The prints are left out; setting
  \<open>openai.api_key\<close> is no call.
\<close>

definition run :: "world \<Rightarrow> kwargs \<Rightarrow> (py_error + string \<times> unit option) \<times> call list" where
  "run w kwargs =
     (case kw_tool kwargs of
        None \<Rightarrow> (Inl (KeyError ''tool''), [])
      | Some tool \<Rightarrow>
     (case kw_prompt kwargs of
        None \<Rightarrow> (Inl (KeyError ''prompt''), [])
      | Some prompt \<Rightarrow>
     (let max_tokens = (case kw_max_tokens kwargs of None \<Rightarrow> 500 | Some m \<Rightarrow> m);
          temperature = (case kw_temperature kwargs of None \<Rightarrow> 2 / 10 | Some t \<Rightarrow> t)
      in
     (case kw_api_keys kwargs of
        None \<Rightarrow> (Inl (KeyError ''api_keys''), [])
      | Some api_keys \<Rightarrow>
     (case map_of api_keys ''openai'' of
        None \<Rightarrow> (Inl (KeyError ''openai''), [])
      | Some openai_api_key \<Rightarrow>
          if tool \<notin> set ALLOWED_TOOLS
          then (Inl (ValueError (''Tool '' @ tool @ '' is not supported.'')), [])
          else
            (case map_of TOOL_TO_ENGINE tool of
               None \<Rightarrow> (Inl (KeyError tool), [])
             | Some engine \<Rightarrow>
                 (let (info, calls1) =
                        additional_information_of w tool prompt engine temperature max_tokens api_keys
                  in case info of
                       Inl e \<Rightarrow> (Inl e, calls1)
                     | Inr additional_information \<Rightarrow>
                         (let prediction_prompt =
                                format_prediction_prompt w prompt additional_information (today_date w);
                              calls2 = calls1 @ [ModerationCreate prediction_prompt]
                          in case moderation_create w prediction_prompt of
                               Inl e \<Rightarrow> (Inl e, calls2)
                             | Inr flagged \<Rightarrow>
                                 if flagged
                                 then (Inr (''Moderation flagged the prompt as in violation of terms.'', None),
                                       calls2)
                                 else
                                   (let calls3 = calls2 @ [ChatCompletionCreate engine prediction_prompt]
                                    in case chat_completion_create w engine prediction_prompt
                                              temperature max_tokens of
                                         Inl e \<Rightarrow> (Inl e, calls3)
                                       | Inr content \<Rightarrow> (Inr (content, None), calls3))))))))))"

section \<open>The rule of the date loops\<close>

text \<open>
  The rule that \<open>scan_names\<close> follows: the content of the last name, in list order, for
  which a meta tag is found.
\<close>

definition last_hit :: "soup \<Rightarrow> string list \<Rightarrow> string \<Rightarrow> string" where
  "last_hit soup names dflt =
     (case find (\<lambda>name. find_meta soup name \<noteq> None) (rev names) of
        None \<Rightarrow> dflt
      | Some name \<Rightarrow> tag_get (the (find_meta soup name)) ''content'' '''')"

section \<open>Concrete inputs\<close>

text \<open>
  A document with \<open><meta name="lastmod" content="2020-01-01">\<close> and
  \<open><meta property="updated" content="2021-02-02">\<close>, and one whose only tag is
  \<open><meta name="date">\<close>, without a content.
\<close>

definition two_dates_soup :: soup where
  "two_dates_soup =
     [\<lparr>tag_name = ''meta'', tag_attrs = [(''name'', ''lastmod''), (''content'', ''2020-01-01'')]\<rparr>,
      \<lparr>tag_name = ''meta'', tag_attrs = [(''property'', ''updated''), (''content'', ''2021-02-02'')]\<rparr>]"

definition no_content_soup :: soup where
  "no_content_soup = [\<lparr>tag_name = ''meta'', tag_attrs = [(''name'', ''date'')]\<rparr>]"

text \<open>
  A world in which every service answers, nothing is flagged, no search has a result and
  every request times out; the worlds below change one service of it.
\<close>

definition quiet_world :: world where
  "quiet_world =
     \<lparr>moderation_create = (\<lambda>p. Inr False),
      chat_completion_create = (\<lambda>model p temperature max_tokens. Inr ''{}''),
      json_queries = (\<lambda>s. Inr []),
      cse_execute = (\<lambda>api_key engine query. Inr (Some [])),
      list_of_set = remdups,
      load_models = Inr (),
      requests_get = (\<lambda>u. Inl ReadTimeout),
      extract_text = (\<lambda>html prompt. Inr html),
      format_url_query_prompt = (\<lambda>p. p),
      format_prediction_prompt = (\<lambda>p info today. p @ info @ today),
      today_date = ''2023-10-01''\<rparr>"

text \<open>The search fails for the query \<open>a\<close> and has one result for any other query.\<close>

definition failing_search_world :: world where
  "failing_search_world =
     quiet_world\<lparr>cse_execute :=
       (\<lambda>api_key engine query.
          if query = ''a'' then Inl (OtherException ''HttpError'')
          else Inr (Some [''http://x.org/1'']))\<rparr>"


text \<open>Every request is answered with the given status and the body \<open>page\<close>.\<close>

definition status_world :: "int \<Rightarrow> world" where
  "status_world status = quiet_world\<lparr>requests_get := (\<lambda>u. Inr (Response status ''page''))\<rparr>"

text \<open>
  A ranker whose recognizer gives the whole text as its one sentence, without entities,
  and for which every similarity is 80 against the threshold 70 (scores in hundredths).
\<close>

definition words_ranker :: "(unit, unit, nat) ranker" where
  "words_ranker =
     \<lparr>encode = (\<lambda>s w. ((), w)),
      nlp = (\<lambda>text w. (([text], []), w)),
      cosine_similarity = (\<lambda>a b. 80),
      boost = (\<lambda>s. s + 5),
      threshold = 70\<rparr>"

text \<open>A text of 151 words \<open>a\<close>, each followed by a tab: it has no space.\<close>

definition tabbed_text :: string where
  "tabbed_text = concat (replicate 151 [CHR ''a'', CHR 0x09])"

text \<open>
  A ranker whose services count their calls in the state, and answer from their
  arguments alone.
\<close>

definition counting_ranker :: "(nat, nat, nat) ranker" where
  "counting_ranker =
     \<lparr>encode = (\<lambda>s w. (length s, Suc w)),
      nlp = (\<lambda>text w. (([text], [''Paris'']), Suc w)),
      cosine_similarity = (\<lambda>a b. 60 + a + b),
      boost = (\<lambda>s. s + 5),
      threshold = 70\<rparr>"

text \<open>Keyword arguments with a tool that is not allowed, with and without a prompt.\<close>

definition unknown_tool_kwargs :: kwargs where
  "unknown_tool_kwargs =
     \<lparr>kw_tool = Some ''prediction-offline'',
      kw_prompt = Some ''Will it rain tomorrow?'',
      kw_max_tokens = None,
      kw_temperature = None,
      kw_api_keys = Some [(''openai'', ''sk-1'')]\<rparr>"

definition no_prompt_kwargs :: kwargs where
  "no_prompt_kwargs = unknown_tool_kwargs\<lparr>kw_prompt := None\<rparr>"

definition offline_kwargs :: kwargs where
  "offline_kwargs = unknown_tool_kwargs\<lparr>kw_tool := Some ''prediction-offline-sum-url-content''\<rparr>"

section \<open>Date extraction: which match wins\<close>

lemma find_append_case:
  "find P (xs @ ys) = (case find P xs of None \<Rightarrow> find P ys | Some x \<Rightarrow> Some x)"
  by (induction xs) auto

lemma scan_names_last_hit: "scan_names soup names d = last_hit soup names d"
proof (induction names arbitrary: d)
  case Nil
  then show ?case by (simp add: last_hit_def)
next
  case (Cons n ns)
  show ?case
  proof (cases "find_meta soup n")
    case None
    then show ?thesis
      using Cons [of d]
      by (simp add: last_hit_def find_append_case split: option.splits)
  next
    case (Some t)
    then show ?thesis
      using Cons [of "tag_get t ''content'' ''''"]
      by (simp add: last_hit_def find_append_case split: option.splits)
  qed
qed

text \<open>
  C2, as the code has it. Each loop of \<open>get_date\<close> goes through its whole list and
  overwrites the date at every match, so the modified date is the content of the last
  name of \<open>update_date_names\<close> that matches a meta tag, and the release date that of the
  last matching name of \<open>release_date_names\<close>; earlier matches are overwritten. When both
  are \<open>"unknown"\<close>, the release date is the datetime of the first time tag, if any.
\<close>

theorem get_date_last_match_wins:
  "get_date soup =
     (let modified_date = last_hit soup update_date_names ''unknown'';
          release_date = last_hit soup release_date_names ''unknown''
      in ''Release date '' @
         (if release_date = ''unknown'' \<and> modified_date = ''unknown''
          then (case soup_find soup ''time'' [] of
                  None \<Rightarrow> ''unknown''
                | Some time_tag \<Rightarrow> tag_get time_tag ''datetime'' '''')
          else release_date)
         @ '', Modified date '' @ modified_date)"
  by (simp add: get_date_def get_date_fields_def scan_names_last_hit Let_def split: option.splits)

text \<open>
  C2 as stated fails: in \<open>two_dates_soup\<close> the names \<open>lastmod\<close> and \<open>updated\<close> both
  match; the first in list order is \<open>lastmod\<close>, with the content \<open>2020-01-01\<close>, and
  \<open>get_date\<close> gives the content of \<open>updated\<close> as the modified date.
\<close>

theorem first_match_counterexample:
  "first_hit_spec two_dates_soup update_date_names ''unknown'' = ''2020-01-01'' \<and>
   get_date two_dates_soup = ''Release date unknown, Modified date 2021-02-02''"
  by code_simp

section \<open>Date extraction: the shape of the result\<close>

lemma soup_find_Some: "soup_find soup nm attrs = Some t \<Longrightarrow> t \<in> set soup \<and> tag_name t = nm"
  by (auto simp: soup_find_def find_Some_iff)

lemma find_meta_Some: "find_meta soup n = Some t \<Longrightarrow> t \<in> set soup \<and> tag_name t = ''meta''"
  by (auto simp: find_meta_def split: option.splits dest: soup_find_Some)

lemma scan_names_cases:
  "scan_names soup names d = d \<or>
   scan_names soup names d \<in>
     set (map (\<lambda>t. tag_get t ''content'' '''') (filter (\<lambda>t. tag_name t = ''meta'') soup))"
proof (induction names arbitrary: d)
  case Nil
  then show ?case by simp
next
  case (Cons n ns)
  show ?case
  proof (cases "find_meta soup n")
    case None
    then show ?thesis using Cons [of d] by simp
  next
    case (Some t)
    then have "tag_get t ''content'' '''' \<in>
        set (map (\<lambda>t. tag_get t ''content'' '''') (filter (\<lambda>t. tag_name t = ''meta'') soup))"
      using find_meta_Some by fastforce
    then show ?thesis
      using Cons [of "tag_get t ''content'' ''''"] Some by auto
  qed
qed

text \<open>
  C6, as the code has it. \<open>get_date\<close> always returns \<open>"Release date X, Modified date Y"\<close>,
  where \<open>Y\<close> is \<open>"unknown"\<close> or what \<open>get("content", "")\<close> gives for a meta tag of the
  document, and \<open>X\<close> is \<open>"unknown"\<close>, or such a content, or what \<open>get("datetime", "")\<close>
  gives for a time tag of the document. The default of \<open>get\<close> is the empty string, so a
  field is the empty string when the tag found has no such attribute, or an empty one.
\<close>

theorem get_date_shape:
  "\<exists>X Y. get_date soup = ''Release date '' @ X @ '', Modified date '' @ Y \<and>
     (X = ''unknown'' \<or>
      X \<in> set (map (\<lambda>t. tag_get t ''content'' '''') (filter (\<lambda>t. tag_name t = ''meta'') soup)) \<or>
      X \<in> set (map (\<lambda>t. tag_get t ''datetime'' '''') (filter (\<lambda>t. tag_name t = ''time'') soup))) \<and>
     (Y = ''unknown'' \<or>
      Y \<in> set (map (\<lambda>t. tag_get t ''content'' '''') (filter (\<lambda>t. tag_name t = ''meta'') soup)))"
proof -
  obtain X Y where f: "get_date_fields soup = (X, Y)" by (cases "get_date_fields soup")
  have m: "Y = scan_names soup update_date_names ''unknown''"
    using f by (auto simp: get_date_fields_def Let_def split: if_splits option.splits)
  have r: "X = scan_names soup release_date_names ''unknown'' \<or>
           (\<exists>t. soup_find soup ''time'' [] = Some t \<and> X = tag_get t ''datetime'' '''')"
    using f by (auto simp: get_date_fields_def Let_def split: if_splits option.splits)
  have Y: "Y = ''unknown'' \<or>
      Y \<in> set (map (\<lambda>t. tag_get t ''content'' '''') (filter (\<lambda>t. tag_name t = ''meta'') soup))"
    unfolding m by (rule scan_names_cases)
  have X: "X = ''unknown'' \<or>
      X \<in> set (map (\<lambda>t. tag_get t ''content'' '''') (filter (\<lambda>t. tag_name t = ''meta'') soup)) \<or>
      X \<in> set (map (\<lambda>t. tag_get t ''datetime'' '''') (filter (\<lambda>t. tag_name t = ''time'') soup))"
    using r
  proof
    assume "X = scan_names soup release_date_names ''unknown''"
    then show ?thesis using scan_names_cases [of soup release_date_names "''unknown''"] by auto
  next
    assume "\<exists>t. soup_find soup ''time'' [] = Some t \<and> X = tag_get t ''datetime'' ''''"
    then obtain t where t: "soup_find soup ''time'' [] = Some t" "X = tag_get t ''datetime'' ''''"
      by blast
    then have "t \<in> set soup \<and> tag_name t = ''time''" using soup_find_Some by blast
    with t(2) show ?thesis by force
  qed
  have "get_date soup = ''Release date '' @ X @ '', Modified date '' @ Y"
    using f by (simp add: get_date_def)
  with X Y show ?thesis by blast
qed

text \<open>
  C6 as stated fails: for the document whose only tag is \<open><meta name="date">\<close> the
  release date is the empty string.
\<close>

theorem empty_date_counterexample:
  "get_date no_content_soup = ''Release date , Modified date unknown''"
  by code_simp

section \<open>Relevance ranking: the order of the sentences\<close>

lemma sorted_reverse_stable:
  "filter (\<lambda>x. key x = k) (sorted_reverse key xs) = filter (\<lambda>x. key x = k) xs"
proof -
  have "filter (\<lambda>x. key x = k) (sorted_reverse key xs) =
        rev (filter (\<lambda>x. key x = k) (sort_key key (rev xs)))"
    by (simp add: sorted_reverse_def rev_filter)
  also have "\<dots> = rev (filter (\<lambda>x. key x = k) (rev xs))"
    by (simp only: sort_key_stable)
  also have "\<dots> = filter (\<lambda>x. key x = k) xs"
    by (simp add: rev_filter)
  finally show ?thesis .
qed

lemma sorted_reverse_descending:
  "sorted_wrt (\<lambda>a b. key a \<ge> key b) (sorted_reverse key xs)"
proof -
  have "sorted (map key (sort_key key (rev xs)))" by simp
  then have "sorted_wrt (\<lambda>a b. key a \<le> key b) (sort_key key (rev xs))"
    by (simp add: sorted_map)
  then show ?thesis
    by (simp add: sorted_reverse_def sorted_wrt_rev)
qed

lemma filter_take_prefix: "prefix (filter P (take n xs)) (filter P xs)"
proof -
  have "filter P xs = filter P (take n xs) @ filter P (drop n xs)"
    by (metis append_take_drop_id filter_append)
  then show ?thesis by (simp add: prefix_def)
qed

text \<open>
  C9. The pairs of sentence and score are ranked in descending order of the score, and
  the ranking is stable: for every score \<open>s\<close>, the pairs with that score stand in the
  ranking in document order. So the pairs with the score \<open>s\<close> among the top four are an
  initial segment of the pairs with that score in document order: where the cut falls
  among ties, the earlier sentences are the ones kept.
\<close>

theorem ranking_is_stable:
  "sorted_wrt (\<lambda>a b. snd a \<ge> snd b) (ranked_pairs sentences similarities) \<and>
   filter (\<lambda>p. snd p = s) (ranked_pairs sentences similarities) =
     filter (\<lambda>p. snd p = s) (zip sentences similarities) \<and>
   prefix (filter (\<lambda>p. snd p = s) (top_pairs thr sentences similarities))
          (filter (\<lambda>p. snd p = s) (zip sentences similarities))"
proof -
  have a: "sorted_wrt (\<lambda>a b. snd a \<ge> snd b) (ranked_pairs sentences similarities)"
    unfolding ranked_pairs_def by (rule sorted_reverse_descending)
  have b: "filter (\<lambda>p. snd p = s) (ranked_pairs sentences similarities) =
     filter (\<lambda>p. snd p = s) (zip sentences similarities)"
    unfolding ranked_pairs_def by (rule sorted_reverse_stable)
  have "prefix (filter (\<lambda>p. snd p = s) (top_pairs thr sentences similarities))
          (filter (\<lambda>p. snd p = s) (relevant_pairs thr sentences similarities))"
    unfolding top_pairs_def by (rule filter_take_prefix)
  also have "filter (\<lambda>p. snd p = s) (relevant_pairs thr sentences similarities) =
      filter (\<lambda>(sent, sim). sim > thr) (filter (\<lambda>p. snd p = s) (ranked_pairs sentences similarities))"
    unfolding relevant_pairs_def by (simp add: conj_commute)
  also have "\<dots> = filter (\<lambda>(sent, sim). sim > thr) (filter (\<lambda>p. snd p = s) (zip sentences similarities))"
    by (simp only: b)
  finally have "prefix (filter (\<lambda>p. snd p = s) (top_pairs thr sentences similarities))
     (filter (\<lambda>(sent, sim). sim > thr) (filter (\<lambda>p. snd p = s) (zip sentences similarities)))" .
  moreover have "filter (\<lambda>(sent, sim). sim > thr) (filter (\<lambda>p. snd p = s) (zip sentences similarities))
     = (if s > thr then filter (\<lambda>p. snd p = s) (zip sentences similarities) else [])"
    by (auto simp: filter_empty_conv intro!: filter_cong [OF refl])
  ultimately have c: "prefix (filter (\<lambda>p. snd p = s) (top_pairs thr sentences similarities))
          (filter (\<lambda>p. snd p = s) (zip sentences similarities))"
    by (auto split: if_splits)
  from a b c show ?thesis by blast
qed

text \<open>
  Six sentences of which four are tied at 80: the sentence of score 90 comes first, then
  the tied ones in document order, and the last of them falls behind the cut.
\<close>

lemma ties_example:
  "map fst (top_pairs (70::nat) [''a'', ''b'', ''c'', ''d'', ''e'', ''f''] [80, 90, 80, 60, 80, 80]) =
     [''b'', ''a'', ''c'', ''e'']"
  by code_simp

section \<open>URL resolution: a failing search\<close>


lemma collect_results_fail:
  "list_all (\<lambda>q. \<not> isl (search_google w q k g)) before \<Longrightarrow>
   search_google w query k g = Inl e \<Longrightarrow>
   collect_results w (before @ query # after) k g acc = (Inl e, map CseList (before @ [query]))"
proof (induction before arbitrary: acc)
  case Nil
  then show ?case by simp
next
  case (Cons q qs)
  then obtain urls where u: "search_google w q k g = Inr urls"
    by (cases "search_google w q k g") auto
  with Cons show ?case by simp
qed


text \<open>
  C1, as the code has it. Nothing in \<open>get_urls_from_queries\<close>, nor in its callers,
  catches an exception of the search. When the search raises for a query, after the
  queries before it have been answered, \<open>get_urls_from_queries\<close> raises that same
  exception and returns no URL; the searches made are those up to the failing query, and
  the queries after it are not searched.
\<close>

theorem search_error_propagates:
  assumes "list_all (\<lambda>q. \<not> isl (search_google w q api_key engine)) before"
    and "search_google w query api_key engine = Inl e"
  shows "get_urls_from_queries w (before @ query # after) api_key engine =
           (Inl e, map CseList (before @ [query]))"
  using collect_results_fail [OF assms, of after "[]"]
  by (simp add: get_urls_from_queries_def)

text \<open>
  The instance with the queries \<open>b\<close>, \<open>a\<close>, \<open>c\<close>, of which the search fails for \<open>a\<close>.
\<close>

theorem search_error_propagates_witness:
  "get_urls_from_queries failing_search_world [''b'', ''a'', ''c''] ''key'' ''cx'' =
     (Inl (OtherException ''HttpError''), [CseList ''b'', CseList ''a''])"
proof -
  have h1: "list_all (\<lambda>q. \<not> isl (search_google failing_search_world q ''key'' ''cx'')) [''b'']"
    by (simp add: search_google_def failing_search_world_def quiet_world_def)
  have h2: "search_google failing_search_world ''a'' ''key'' ''cx'' = Inl (OtherException ''HttpError'')"
    by (simp add: search_google_def failing_search_world_def quiet_world_def)
  show ?thesis
    using search_error_propagates [OF h1 h2, of "[''c'']"] by simp
qed

text \<open>
  C1 as stated fails: the search raises for \<open>a\<close> and answers \<open>b\<close> with one URL, and
  the queries \<open>a\<close>, \<open>b\<close> give the exception, not that URL; \<open>b\<close> is not searched.
\<close>

theorem search_error_counterexample:
  "search_google failing_search_world ''a'' ''key'' ''cx'' = Inl (OtherException ''HttpError'') \<and>
   search_google failing_search_world ''b'' ''key'' ''cx'' = Inr [''http://x.org/1''] \<and>
   get_urls_from_queries failing_search_world [''a'', ''b''] ''key'' ''cx'' =
     (Inl (OtherException ''HttpError''), [CseList ''a''])"
  by code_simp

section \<open>URL resolution: duplicates and PDFs\<close>




section \<open>Relevance ranking: the length of the summary\<close>

lemma join_Cons: "join sep (x # xs) = (if xs = [] then x else x @ sep @ join sep xs)"
  by (cases xs) simp_all

lemma split_on_not_Nil: "split_on d s \<noteq> []"
  by (induction s) (auto split: list.splits)

lemma split_on_no_sep: "p \<in> set (split_on d s) \<Longrightarrow> d \<notin> set p"
  by (induction s arbitrary: p) (auto split: list.splits if_splits)

lemma split_on_piece: "d \<notin> set p \<Longrightarrow> split_on d p = [p]"
  by (induction p) auto

lemma split_on_piece_sep: "d \<notin> set p \<Longrightarrow> split_on d (p @ d # rest) = p # split_on d rest"
  by (induction p) auto

lemma split_on_join:
  "ps \<noteq> [] \<Longrightarrow> (\<And>p. p \<in> set ps \<Longrightarrow> d \<notin> set p) \<Longrightarrow> split_on d (join [d] ps) = ps"
proof (induction ps)
  case Nil
  then show ?case by simp
next
  case (Cons p ps)
  show ?case
  proof (cases "ps = []")
    case True
    then show ?thesis using Cons.prems by (simp add: split_on_piece)
  next
    case False
    then have "split_on d (join [d] ps) = ps" using Cons by simp
    then show ?thesis using False Cons.prems(2) [of p]
      by (simp add: join_Cons split_on_piece_sep)
  qed
qed

lemma join_split_on: "join [d] (split_on d s) = s"
proof (induction s)
  case Nil
  then show ?case by simp
next
  case (Cons c cs)
  then show ?case
    using split_on_not_Nil [of d cs]
    by (auto simp: join_Cons split: list.splits)
qed

lemma prefix_join_take: "prefix (join sep (take n xs)) (join sep xs)"
proof (induction xs arbitrary: n)
  case Nil
  then show ?case by simp
next
  case (Cons x xs)
  show ?case
  proof (cases n)
    case 0
    then show ?thesis by simp
  next
    case (Suc m)
    show ?thesis
    proof (cases "take m xs = []")
      case True
      then show ?thesis using Suc by (simp add: join_Cons)
    next
      case False
      then have "xs \<noteq> []" by auto
      then show ?thesis using Suc False Cons [of m] by (simp add: join_Cons)
    qed
  qed
qed

lemma summary_output_prefix: "prefix (summary_output top_sentences max_words) (join '' '' top_sentences)"
proof -
  have "prefix (join '' '' (slice_to (split_on CHR '' '' (join '' '' top_sentences)) max_words))
               (join '' '' (split_on CHR '' '' (join '' '' top_sentences)))"
    unfolding slice_to_def by (auto intro: prefix_join_take)
  then show ?thesis
    by (simp add: summary_output_def Let_def join_split_on)
qed

lemma word_count_sp_le: "word_count_sp s \<le> length (split_on CHR '' '' s)"
  by (simp add: word_count_sp_def)

lemma summary_output_bound:
  assumes "0 \<le> max_words"
  shows "int (word_count_sp (summary_output top_sentences max_words)) \<le> max_words"
proof -
  define ws where "ws = split_on CHR '' '' (join '' '' top_sentences)"
  show ?thesis
  proof (cases "int (length ws) > max_words")
    case False
    then have "summary_output top_sentences max_words = join '' '' top_sentences"
      by (simp add: summary_output_def ws_def Let_def)
    then show ?thesis using False word_count_sp_le [of "join '' '' top_sentences"]
      by (simp add: ws_def)
  next
    case True
    then have out: "summary_output top_sentences max_words = join '' '' (take (nat max_words) ws)"
      using assms by (simp add: summary_output_def ws_def Let_def slice_to_def)
    show ?thesis
    proof (cases "nat max_words = 0")
      case True
      then show ?thesis using out assms by (simp add: word_count_sp_def)
    next
      case False
      then have ne: "take (nat max_words) ws \<noteq> []"
        using split_on_not_Nil [of "CHR '' ''" "join '' '' top_sentences"] by (simp add: ws_def)
      have "split_on CHR '' '' (join '' '' (take (nat max_words) ws)) = take (nat max_words) ws"
      proof (rule split_on_join [OF ne])
        fix p assume "p \<in> set (take (nat max_words) ws)"
        then have "p \<in> set ws" by (rule in_set_takeD)
        then show "CHR '' '' \<notin> set p" unfolding ws_def by (rule split_on_no_sep)
      qed
      then have "word_count_sp (summary_output top_sentences max_words) \<le> length (take (nat max_words) ws)"
        using word_count_sp_le [of "summary_output top_sentences max_words"] out by simp
      then have "word_count_sp (summary_output top_sentences max_words) \<le> nat max_words"
        by simp
      then show ?thesis using assms by linarith
    qed
  qed
qed

lemma top_pairs_subset: "set (map fst (top_pairs thr sentences similarities)) \<subseteq> set sentences"
proof -
  have "set (top_pairs thr sentences similarities) \<subseteq> set (zip sentences similarities)"
    by (auto simp: top_pairs_def relevant_pairs_def ranked_pairs_def sorted_reverse_def
        dest: in_set_takeD)
  then show ?thesis
    by (auto dest!: subsetD dest: set_zip_leftD)
qed

lemma similarities_loop_length:
  "length (fst (similarities_loop r q entities sentences w)) = length sentences"
proof (induction sentences arbitrary: w)
  case Nil
  then show ?case by simp
next
  case (Cons s ss)
  obtain e1 w1 where a: "encode r s w = (e1, w1)" by (cases "encode r s w")
  obtain sims w2 where c: "similarities_loop r q entities ss w1 = (sims, w2)"
    by (cases "similarities_loop r q entities ss w1")
  have "length sims = length ss" using Cons [of w1] c by simp
  with a c show ?case by (simp add: Let_def)
qed

lemma get_website_summary_nonempty:
  "prompt \<noteq> [] \<Longrightarrow> text \<noteq> [] \<Longrightarrow>
   fst (get_website_summary r text prompt max_words w) =
     summary_output
       (map fst (top_pairs (threshold r)
          (candidate_sentences (fst (fst (nlp r text (snd (encode r prompt w))))))
          (fst (similarities_loop r (fst (encode r prompt w))
                  (snd (fst (nlp r text (snd (encode r prompt w)))))
                  (candidate_sentences (fst (fst (nlp r text (snd (encode r prompt w))))))
                  (snd (nlp r text (snd (encode r prompt w))))))))
       max_words"
  by (simp add: get_website_summary_def Let_def case_prod_beta)

lemma get_website_summary_empty:
  "prompt = [] \<or> text = [] \<Longrightarrow> fst (get_website_summary r text prompt max_words w) = []"
  by (auto simp: get_website_summary_def)

lemma summary_output_short:
  "int (length (split_on CHR '' '' (join '' '' top_sentences))) \<le> max_words \<Longrightarrow>
   summary_output top_sentences max_words = join '' '' top_sentences"
  by (simp add: summary_output_def Let_def)

lemma summary_output_cut:
  "0 \<le> max_words \<Longrightarrow> max_words < int (length (split_on CHR '' '' (join '' '' top_sentences))) \<Longrightarrow>
   summary_output top_sentences max_words =
     join '' '' (take (nat max_words) (split_on CHR '' '' (join '' '' top_sentences)))"
  by (simp add: summary_output_def Let_def slice_to_def)

lemma summary_output_pieces:
  assumes "0 < max_words"
    and "max_words < int (length (split_on CHR '' '' (join '' '' top_sentences)))"
  shows "split_on CHR '' '' (summary_output top_sentences max_words) =
           take (nat max_words) (split_on CHR '' '' (join '' '' top_sentences))"
proof -
  let ?ws = "split_on CHR '' '' (join '' '' top_sentences)"
  have ne: "take (nat max_words) ?ws \<noteq> []"
    using assms(1) split_on_not_Nil [of "CHR '' ''" "join '' '' top_sentences"] by simp
  have "split_on CHR '' '' (join '' '' (take (nat max_words) ?ws)) = take (nat max_words) ?ws"
  proof (rule split_on_join [OF ne])
    fix p assume "p \<in> set (take (nat max_words) ?ws)"
    then have "p \<in> set ?ws" by (rule in_set_takeD)
    then show "CHR '' '' \<notin> set p" by (rule split_on_no_sep)
  qed
  then show ?thesis
    using assms by (simp add: summary_output_cut)
qed

lemma summary_output_zero: "summary_output top_sentences 0 = []"
  using split_on_not_Nil [of "CHR '' ''" "join '' '' top_sentences"]
  by (simp add: summary_output_def Let_def slice_to_def)

text \<open>
  C4, as the code has it. For an empty prompt or text the result of
  \<open>get_website_summary\<close> is empty. Otherwise let the top sentences be the first four, in
  the ranking by score, of the candidate sentences whose score is above the threshold,
  and let the pieces be what \<open>split(' ')\<close> gives for their join with single spaces.
  When there are at most \<open>max_words\<close> pieces, the result is that join, uncut. When
  there are more, and \<open>max_words\<close> is positive, the result is the join of the first
  \<open>max_words\<close> pieces, and these are exactly its pieces; for \<open>max_words = 0\<close> it is
  empty. So the result is an initial segment of the join, and for a maximum that is not
  negative it has at most \<open>max_words\<close> words, where the words are the non-empty pieces
  between single spaces: a tab or a newline does not end a word.
\<close>

theorem summary_is_bounded:
  "(let q = encode r prompt w;
        d = nlp r text (snd q);
        sentences = candidate_sentences (fst (fst d));
        similarities = fst (similarities_loop r (fst q) (snd (fst d)) sentences (snd d));
        top_sentences = map fst (top_pairs (threshold r) sentences similarities);
        pieces = split_on CHR '' '' (join '' '' top_sentences);
        out = fst (get_website_summary r text prompt max_words w)
    in (prompt = [] \<or> text = [] \<longrightarrow> out = []) \<and>
       (prompt \<noteq> [] \<and> text \<noteq> [] \<longrightarrow>
          length similarities = length sentences \<and>
          length top_sentences \<le> 4 \<and>
          set top_sentences \<subseteq> set sentences \<and>
          (int (length pieces) \<le> max_words \<longrightarrow> out = join '' '' top_sentences) \<and>
          (0 < max_words \<and> max_words < int (length pieces) \<longrightarrow>
             out = join '' '' (take (nat max_words) pieces) \<and>
             split_on CHR '' '' out = take (nat max_words) pieces) \<and>
          (max_words = 0 \<longrightarrow> out = []) \<and>
          prefix out (join '' '' top_sentences)) \<and>
       (0 \<le> max_words \<longrightarrow> int (word_count_sp out) \<le> max_words))"
proof -
  define q where "q = encode r prompt w"
  define d where "d = nlp r text (snd q)"
  define sentences where "sentences = candidate_sentences (fst (fst d))"
  define similarities where
    "similarities = fst (similarities_loop r (fst q) (snd (fst d)) sentences (snd d))"
  define top_sentences where
    "top_sentences = map fst (top_pairs (threshold r) sentences similarities)"
  define pieces where "pieces = split_on CHR '' '' (join '' '' top_sentences)"
  define out where "out = fst (get_website_summary r text prompt max_words w)"
  have empty: "out = []" if "prompt = [] \<or> text = []"
    unfolding out_def using that by (rule get_website_summary_empty)
  have eq: "out = summary_output top_sentences max_words" if "prompt \<noteq> []" "text \<noteq> []"
    unfolding out_def top_sentences_def similarities_def sentences_def d_def q_def
    using that by (rule get_website_summary_nonempty)
  have len: "length similarities = length sentences"
    unfolding similarities_def by (rule similarities_loop_length)
  have four: "length top_sentences \<le> 4"
    by (simp add: top_sentences_def top_pairs_def)
  have sub: "set top_sentences \<subseteq> set sentences"
    unfolding top_sentences_def by (rule top_pairs_subset)
  have short: "out = join '' '' top_sentences"
    if "prompt \<noteq> []" "text \<noteq> []" "int (length pieces) \<le> max_words"
    using that eq summary_output_short [of top_sentences max_words] by (simp add: pieces_def)
  have cut: "out = join '' '' (take (nat max_words) pieces) \<and>
             split_on CHR '' '' out = take (nat max_words) pieces"
    if "prompt \<noteq> []" "text \<noteq> []" "0 < max_words" "max_words < int (length pieces)"
    using that eq summary_output_cut [of max_words top_sentences]
      summary_output_pieces [of max_words top_sentences]
    by (simp add: pieces_def)
  have zero: "out = []" if "prompt \<noteq> []" "text \<noteq> []" "max_words = 0"
    using that eq summary_output_zero by simp
  have pre: "prefix out (join '' '' top_sentences)" if "prompt \<noteq> []" "text \<noteq> []"
    using that eq summary_output_prefix by simp
  have bound: "int (word_count_sp out) \<le> max_words" if "0 \<le> max_words"
  proof (cases "prompt = [] \<or> text = []")
    case True
    then show ?thesis using empty that by (simp add: word_count_sp_def)
  next
    case False
    then show ?thesis using eq that summary_output_bound by simp
  qed
  have "(prompt = [] \<or> text = [] \<longrightarrow> out = []) \<and>
       (prompt \<noteq> [] \<and> text \<noteq> [] \<longrightarrow>
          length similarities = length sentences \<and>
          length top_sentences \<le> 4 \<and>
          set top_sentences \<subseteq> set sentences \<and>
          (int (length pieces) \<le> max_words \<longrightarrow> out = join '' '' top_sentences) \<and>
          (0 < max_words \<and> max_words < int (length pieces) \<longrightarrow>
             out = join '' '' (take (nat max_words) pieces) \<and>
             split_on CHR '' '' out = take (nat max_words) pieces) \<and>
          (max_words = 0 \<longrightarrow> out = []) \<and>
          prefix out (join '' '' top_sentences)) \<and>
       (0 \<le> max_words \<longrightarrow> int (word_count_sp out) \<le> max_words)"
    using empty len four sub short cut zero pre bound by blast
  then show ?thesis
    unfolding Let_def out_def pieces_def top_sentences_def similarities_def sentences_def d_def q_def .
qed

text \<open>
  The instance with a sentence of six words and a maximum of three: the first three
  words are kept.
\<close>

theorem summary_is_bounded_witness:
  "fst (get_website_summary words_ranker ''one two three four five six'' ''q'' 3 ()) =
     join '' '' (take 3 (split_on CHR '' '' ''one two three four five six'')) \<and>
   split_on CHR '' '' (fst (get_website_summary words_ranker ''one two three four five six'' ''q'' 3 ())) =
     [''one'', ''two'', ''three''] \<and>
   int (word_count_sp (fst (get_website_summary words_ranker ''one two three four five six'' ''q'' 3 ()))) \<le> 3"
proof -
  have top: "map fst (top_pairs (threshold words_ranker)
               (candidate_sentences (fst (fst (nlp words_ranker ''one two three four five six''
                  (snd (encode words_ranker ''q'' ()))))))
               (fst (similarities_loop words_ranker (fst (encode words_ranker ''q'' ()))
                  (snd (fst (nlp words_ranker ''one two three four five six''
                     (snd (encode words_ranker ''q'' ())))))
                  (candidate_sentences (fst (fst (nlp words_ranker ''one two three four five six''
                     (snd (encode words_ranker ''q'' ()))))))
                  (snd (nlp words_ranker ''one two three four five six''
                     (snd (encode words_ranker ''q'' ()))))))) =
             [''one two three four five six'']"
    by code_simp
  have pieces: "split_on CHR '' '' ''one two three four five six'' =
                  [''one'', ''two'', ''three'', ''four'', ''five'', ''six'']"
    by code_simp
  show ?thesis
    using summary_is_bounded [of words_ranker "''q''" "()" "''one two three four five six''" 3]
    by (auto simp add: Let_def top [simplified] pieces)
qed

text \<open>
  C4 as stated fails: \<open>tabbed_text\<close> is one sentence of 151 whitespace-delimited tokens
  and one piece between spaces, and it is returned whole for the default maximum of 150.
\<close>

theorem tab_words_counterexample:
  "fst (get_website_summary words_ranker tabbed_text ''q'' 150 ()) = tabbed_text \<and>
   word_count_ws tabbed_text = 151"
  by code_simp

section \<open>Relevance ranking: running it again\<close>

lemma similarities_loop_deterministic:
  "deterministic (encode r) \<Longrightarrow>
   fst (similarities_loop r q entities sentences w) = fst (similarities_loop r q entities sentences w')"
proof (induction sentences arbitrary: w w')
  case Nil
  then show ?case by simp
next
  case (Cons s ss)
  obtain e1 w1 where a: "encode r s w = (e1, w1)" by (cases "encode r s w")
  obtain e1' w1' where b: "encode r s w' = (e1', w1')" by (cases "encode r s w'")
  have e: "e1' = e1"
    using Cons.prems a b by (metis deterministic_def fst_conv)
  obtain sims w2 where c: "similarities_loop r q entities ss w1 = (sims, w2)"
    by (cases "similarities_loop r q entities ss w1")
  obtain sims' w2' where d: "similarities_loop r q entities ss w1' = (sims', w2')"
    by (cases "similarities_loop r q entities ss w1'")
  have "sims' = sims"
    using Cons.IH [OF Cons.prems, of w1 w1'] c d by simp
  with a b c d e show ?case
    by (simp add: Let_def)
qed

lemma get_website_summary_deterministic:
  assumes "deterministic (encode r)" and "deterministic (nlp r)"
  shows "fst (get_website_summary r text prompt max_words w) =
         fst (get_website_summary r text prompt max_words w')"
proof (cases "prompt = [] \<or> text = []")
  case True
  then show ?thesis by (auto simp: get_website_summary_def)
next
  case False
  obtain q w1 where q: "encode r prompt w = (q, w1)" by (cases "encode r prompt w")
  obtain q' w1' where q': "encode r prompt w' = (q', w1')" by (cases "encode r prompt w'")
  have qq: "q' = q" using assms(1) q q' by (metis deterministic_def fst_conv)
  obtain sents ents w2 where n: "nlp r text w1 = ((sents, ents), w2)" by (cases "nlp r text w1") auto
  obtain sents' ents' w2' where n': "nlp r text w1' = ((sents', ents'), w2')" by (cases "nlp r text w1'") auto
  have nn: "sents' = sents \<and> ents' = ents"
    using assms(2) n n' by (metis deterministic_def fst_conv prod.inject)
  obtain sims w3 where s: "similarities_loop r q ents (candidate_sentences sents) w2 = (sims, w3)"
    by (cases "similarities_loop r q ents (candidate_sentences sents) w2")
  obtain sims' w3' where s': "similarities_loop r q ents (candidate_sentences sents) w2' = (sims', w3')"
    by (cases "similarities_loop r q ents (candidate_sentences sents) w2'")
  have ss: "sims' = sims"
    using similarities_loop_deterministic [OF assms(1), of q ents "candidate_sentences sents" w2 w2'] s s'
    by simp
  show ?thesis
    using False q q' qq n n' nn s s' ss by (simp add: get_website_summary_def)
qed

text \<open>
  C8. When the encoder and the recognizer are deterministic, a second run of
  \<open>get_website_summary\<close> on the same text and prompt, in the state that the first run
  has left, returns the same string as the first.
\<close>

theorem ranker_rerun_identical:
  assumes "deterministic (encode r)" and "deterministic (nlp r)"
  shows "fst (get_website_summary r text prompt max_words
                (snd (get_website_summary r text prompt max_words w))) =
         fst (get_website_summary r text prompt max_words w)"
  using assms by (rule get_website_summary_deterministic)

text \<open>
  The instance with the ranker whose services count their calls: the state after the
  first run differs from the state before it, and the summaries agree.
\<close>

theorem ranker_rerun_identical_witness:
  "deterministic (encode counting_ranker) \<and> deterministic (nlp counting_ranker) \<and>
   fst (get_website_summary counting_ranker ''Paris is the capital of France'' ''capital'' 150
          (snd (get_website_summary counting_ranker ''Paris is the capital of France'' ''capital'' 150 0))) =
   fst (get_website_summary counting_ranker ''Paris is the capital of France'' ''capital'' 150 0)"
proof -
  have h1: "deterministic (encode counting_ranker)"
    by (simp add: deterministic_def counting_ranker_def)
  have h2: "deterministic (nlp counting_ranker)"
    by (simp add: deterministic_def counting_ranker_def)
  show ?thesis
    using ranker_rerun_identical [OF h1 h2] h1 h2 by blast
qed

lemma counting_ranker_value:
  "get_website_summary counting_ranker ''Paris is the capital of France'' ''capital'' 150 0 =
     (''Paris is the capital of France'', 3)"
  by code_simp

section \<open>Fetching: the cap and the status\<close>

declare process_in_batches.simps [simp del]

lemma map_filter_append_list:
  "List.map_filter f (xs @ ys) = List.map_filter f xs @ List.map_filter f ys"
  by (simp add: List.map_filter_def)

lemma snippets_Cons:
  "snippets w p (url # urls) =
     (case snippet_of w p url of None \<Rightarrow> snippets w p urls | Some s \<Rightarrow> s # snippets w p urls)"
  by (simp add: snippets_def List.map_filter_simps split: option.splits)

lemma snippets_append: "snippets w p (xs @ ys) = snippets w p xs @ snippets w p ys"
  by (simp add: snippets_def map_filter_append_list)

lemma snippet_of_iff:
  "snippet_of w prompt url \<noteq> None \<longleftrightarrow>
     (\<exists>result. requests_get w url = Inr result \<and> status_code result = 200 \<and>
               \<not> isl (extract_text w (response_text result) prompt))"
  by (auto simp: snippet_of_def split: sum.splits)

lemma process_urls_step_None:
  "snippet_of w p url = None \<Longrightarrow>
   process_urls w p (url # batch) texts count = process_urls w p batch texts count"
  by (auto simp: snippet_of_def split: sum.splits if_splits)

lemma process_urls_step_Some:
  "snippet_of w p url = Some s \<Longrightarrow>
   process_urls w p (url # batch) texts count =
     (if count + 1 \<ge> max_allowed then (texts @ [s], count + 1, True)
      else process_urls w p batch (texts @ [s]) (count + 1))"
  by (auto simp: snippet_of_def Let_def split: sum.splits if_splits)

declare process_urls.simps(2) [simp del]

lemma process_urls_char:
  "count < max_allowed \<Longrightarrow>
   process_urls w p batch texts count =
     (texts @ take (max_allowed - count) (snippets w p batch),
      count + min (max_allowed - count) (length (snippets w p batch)),
      max_allowed - count \<le> length (snippets w p batch))"
proof (induction batch arbitrary: texts count)
  case Nil
  then show ?case by (simp add: snippets_def List.map_filter_simps)
next
  case (Cons url batch)
  show ?case
  proof (cases "snippet_of w p url")
    case None
    then show ?thesis
      using Cons.IH [OF Cons.prems, of texts]
      by (simp only: process_urls_step_None snippets_Cons option.case)
  next
    case (Some s)
    show ?thesis
    proof (cases "count + 1 \<ge> max_allowed")
      case True
      then have "max_allowed - count = 1" using Cons.prems by simp
      then show ?thesis
        using True Some by (simp add: process_urls_step_Some snippets_Cons)
    next
      case False
      then have lt: "count + 1 < max_allowed" by simp
      have t: "take (max_allowed - count) (s # snippets w p batch) =
               s # take (max_allowed - (count + 1)) (snippets w p batch)"
      proof -
        have "max_allowed - count = Suc (max_allowed - (count + 1))" using lt by simp
        then show ?thesis by (simp only: take_Suc_Cons)
      qed
      show ?thesis
        using False Some Cons.IH [OF lt, of "texts @ [s]"] lt
        by (auto simp add: process_urls_step_Some snippets_Cons t min_def)
    qed
  qed
qed

lemma process_batches_char:
  "count < max_allowed \<Longrightarrow>
   fst (process_batches w p batches texts count) =
     texts @ take (max_allowed - count) (snippets w p (concat batches))"
proof (induction batches arbitrary: texts count)
  case Nil
  then show ?case by (simp add: snippets_def List.map_filter_simps)
next
  case (Cons b bs)
  note pu = process_urls_char [OF Cons.prems, of w p b texts]
  show ?case
  proof (cases "max_allowed - count \<le> length (snippets w p b)")
    case True
    then show ?thesis using pu by (simp add: snippets_append)
  next
    case False
    then have lt: "count + length (snippets w p b) < max_allowed" by simp
    have m: "min (max_allowed - count) (length (snippets w p b)) = length (snippets w p b)"
      using False by simp
    have "fst (process_batches w p bs (texts @ snippets w p b) (count + length (snippets w p b))) =
          (texts @ snippets w p b) @
          take (max_allowed - (count + length (snippets w p b))) (snippets w p (concat bs))"
      by (rule Cons.IH [OF lt])
    then show ?thesis
      using pu False m
      by (auto simp: snippets_append split: prod.splits)
  qed
qed

lemma process_batches_calls:
  "\<exists>n \<le> length (concat batches).
     snd (process_batches w p batches texts count) = map RequestsGet (take n (concat batches))"
proof (induction batches arbitrary: texts count)
  case Nil
  then show ?case by simp
next
  case (Cons b bs)
  obtain texts' count' stop where pu: "process_urls w p b texts count = (texts', count', stop)"
    by (cases "process_urls w p b texts count")
  show ?case
  proof (cases stop)
    case True
    then have "snd (process_batches w p (b # bs) texts count) =
               map RequestsGet (take (length b) (concat (b # bs)))"
      using pu by simp
    moreover have "length b \<le> length (concat (b # bs))" by simp
    ultimately show ?thesis by blast
  next
    case False
    obtain n where n: "n \<le> length (concat bs)"
      "snd (process_batches w p bs texts' count') = map RequestsGet (take n (concat bs))"
      using Cons.IH by blast
    have "snd (process_batches w p (b # bs) texts count) =
          map RequestsGet (take (length b + n) (concat (b # bs)))"
      using pu False n(2) by (auto split: prod.splits)
    moreover have "length b + n \<le> length (concat (b # bs))" using n(1) by simp
    ultimately show ?thesis by blast
  qed
qed

lemma process_batches_stop:
  "count < max_allowed \<Longrightarrow> max_allowed - count \<le> length (snippets w p (concat bs1)) \<Longrightarrow>
   process_batches w p (bs1 @ bs2) texts count = process_batches w p bs1 texts count"
proof (induction bs1 arbitrary: texts count)
  case Nil
  then show ?case by (simp add: snippets_def List.map_filter_simps)
next
  case (Cons b bs)
  note pu = process_urls_char [OF Cons.prems(1), of w p b texts]
  show ?case
  proof (cases "max_allowed - count \<le> length (snippets w p b)")
    case True
    then show ?thesis using pu by simp
  next
    case False
    then have lt: "count + length (snippets w p b) < max_allowed" by simp
    have m: "min (max_allowed - count) (length (snippets w p b)) = length (snippets w p b)"
      using False by simp
    have rest: "max_allowed - (count + length (snippets w p b)) \<le> length (snippets w p (concat bs))"
      using Cons.prems(2) by (simp add: snippets_append)
    have "process_batches w p (bs @ bs2) (texts @ snippets w p b) (count + length (snippets w p b)) =
          process_batches w p bs (texts @ snippets w p b) (count + length (snippets w p b))"
      by (rule Cons.IH [OF lt rest])
    then show ?thesis
      using pu False m by simp
  qed
qed

lemma concat_process_in_batches:
  "0 < window \<Longrightarrow> concat (process_in_batches urls window) = urls"
proof (induction urls window rule: process_in_batches.induct)
  case (1 urls window)
  show ?case
  proof (cases "urls = []")
    case True
    then show ?thesis by (simp add: process_in_batches.simps)
  next
    case False
    then show ?thesis
      using 1 by (subst process_in_batches.simps) simp
  qed
qed

lemma process_in_batches_append:
  "0 < window \<Longrightarrow> length us mod window = 0 \<Longrightarrow>
   process_in_batches (us @ vs) window = process_in_batches us window @ process_in_batches vs window"
proof (induction us window rule: process_in_batches.induct)
  case (1 us window)
  show ?case
  proof (cases "us = []")
    case True
    then show ?thesis by (simp add: process_in_batches.simps [of "[]"])
  next
    case False
    then have len: "window \<le> length us"
      using 1(2,3) by (metis length_greater_0_conv mod_less not_le_imp_less less_numeral_extra(3))
    have md: "length (drop window us) mod window = 0"
      using 1(3) len by (simp add: le_mod_geq)
    have ih: "process_in_batches (drop window us @ vs) window =
              process_in_batches (drop window us) window @ process_in_batches vs window"
      using 1(1) False 1(2) md by simp
    have l: "process_in_batches (us @ vs) window =
             take window us # process_in_batches (drop window us @ vs) window"
      using False 1(2) len by (subst process_in_batches.simps) simp
    have r: "process_in_batches us window = take window us # process_in_batches (drop window us) window"
      using False 1(2) by (subst process_in_batches.simps) simp
    show ?thesis by (simp add: l r ih)
  qed
qed

lemma extract_texts_result:
  "fst (extract_texts w urls prompt) =
     (case load_models w of
        Inl e \<Rightarrow> Inl e
      | Inr u \<Rightarrow> Inr (take 45 (snippets w prompt urls)))"
proof -
  have "fst (process_batches w prompt (process_in_batches urls 5) [] 0) =
        [] @ take (max_allowed - 0) (snippets w prompt (concat (process_in_batches urls 5)))"
    by (rule process_batches_char) (simp add: max_allowed_def)
  then show ?thesis
    by (auto simp: extract_texts_def concat_process_in_batches max_allowed_def
        split: prod.splits sum.splits)
qed

lemma extract_texts_calls:
  "\<exists>n \<le> length urls. snd (extract_texts w urls prompt) = LoadModels # map RequestsGet (take n urls)"
proof (cases "load_models w")
  case (Inl e)
  then have "snd (extract_texts w urls prompt) = LoadModels # map RequestsGet (take 0 urls)"
    by (simp add: extract_texts_def)
  then show ?thesis by blast
next
  case (Inr u)
  obtain n where "n \<le> length (concat (process_in_batches urls 5))"
    "snd (process_batches w prompt (process_in_batches urls 5) [] 0) =
       map RequestsGet (take n (concat (process_in_batches urls 5)))"
    using process_batches_calls by blast
  then show ?thesis
    using Inr by (auto simp: extract_texts_def concat_process_in_batches split: prod.splits)
qed

lemma extract_texts_stop:
  assumes "length us mod 5 = 0" and "45 \<le> length (snippets w prompt us)"
  shows "extract_texts w (us @ vs) prompt = extract_texts w us prompt"
proof -
  have "process_batches w prompt (process_in_batches us 5 @ process_in_batches vs 5) [] 0 =
        process_batches w prompt (process_in_batches us 5) [] 0"
    by (rule process_batches_stop) (use assms(2) in \<open>simp_all add: max_allowed_def concat_process_in_batches\<close>)
  moreover have "process_in_batches (us @ vs) 5 = process_in_batches us 5 @ process_in_batches vs 5"
    using assms(1) by (simp add: process_in_batches_append)
  ultimately show ?thesis
    by (simp add: extract_texts_def split: sum.splits)
qed

text \<open>
  C3. \<open>extract_texts\<close> raises only when the models do not load, and otherwise returns
  at most 45 snippets, whatever the URLs and the outcomes of their requests and
  summaries. When the windows \<open>us\<close> (a multiple of 5 URLs) hold 45 URLs that yield a
  snippet, the URLs \<open>vs\<close> of the later windows change neither the result nor the calls:
  the requests made are those of an initial segment of \<open>us\<close>, so no URL of \<open>vs\<close> is
  requested or summarised.
\<close>

theorem extract_texts_cap:
  "(case fst (extract_texts w (us @ vs) prompt) of
      Inl e \<Rightarrow> load_models w = Inl e
    | Inr texts \<Rightarrow> length texts \<le> 45) \<and>
   (length us mod 5 = 0 \<and> 45 \<le> length (snippets w prompt us) \<longrightarrow>
      extract_texts w (us @ vs) prompt = extract_texts w us prompt \<and>
      (\<exists>n \<le> length us.
         snd (extract_texts w (us @ vs) prompt) = LoadModels # map RequestsGet (take n us)))"
proof -
  have a: "case fst (extract_texts w (us @ vs) prompt) of
      Inl e \<Rightarrow> load_models w = Inl e
    | Inr texts \<Rightarrow> length texts \<le> 45"
    by (simp add: extract_texts_result split: sum.splits)
  have b: "extract_texts w (us @ vs) prompt = extract_texts w us prompt \<and>
      (\<exists>n \<le> length us.
         snd (extract_texts w (us @ vs) prompt) = LoadModels # map RequestsGet (take n us))"
    if h: "length us mod 5 = 0" "45 \<le> length (snippets w prompt us)"
  proof -
    have s: "extract_texts w (us @ vs) prompt = extract_texts w us prompt"
      using h by (rule extract_texts_stop)
    show ?thesis
      using extract_texts_calls [of us w prompt] by (simp add: s)
  qed
  show ?thesis
  proof (rule conjI [OF a], rule impI)
    assume h: "length us mod 5 = 0 \<and> 45 \<le> length (snippets w prompt us)"
    from h have h1: "length us mod 5 = 0" by (rule conjunct1)
    from h have h2: "45 \<le> length (snippets w prompt us)" by (rule conjunct2)
    show "extract_texts w (us @ vs) prompt = extract_texts w us prompt \<and>
      (\<exists>n \<le> length us.
         snd (extract_texts w (us @ vs) prompt) = LoadModels # map RequestsGet (take n us))"
      by (rule b [OF h1 h2])
  qed
qed

text \<open>
  The instance with 45 URLs that are all accepted, followed by one more URL.
\<close>

theorem extract_texts_cap_witness:
  "length (replicate 45 ''u'') mod 5 = 0 \<and>
   45 \<le> length (snippets (status_world 200) ''q'' (replicate 45 ''u'')) \<and>
   extract_texts (status_world 200) (replicate 45 ''u'' @ [''v'']) ''q'' =
     extract_texts (status_world 200) (replicate 45 ''u'') ''q''"
proof -
  have h: "length (replicate 45 ''u'') mod 5 = 0 \<and>
           45 \<le> length (snippets (status_world 200) ''q'' (replicate 45 ''u''))"
    by code_simp
  show ?thesis
    using extract_texts_cap [of "status_world 200" "replicate 45 ''u''" "[''v'']" "''q''"] h by blast
qed

text \<open>
  C7, as the code has it. A URL yields a snippet exactly when its request returns a
  response whose status code is 200 and \<open>extract_text\<close> returns for its body; the test
  of the code is \<open>status_code != 200\<close>, so the other statuses of the class 2xx are
  discarded too. Every other outcome (another status, a timeout, another exception of
  the request or of \<open>extract_text\<close>) adds nothing and does not end the loop: when the
  models load, \<open>extract_texts\<close> returns the snippets of the URLs that yield one, in the
  order of the URLs, up to the cap of 45.
\<close>

theorem extract_texts_accepts_status_200:
  "(snippet_of w prompt url \<noteq> None \<longleftrightarrow>
      (\<exists>result. requests_get w url = Inr result \<and> status_code result = 200 \<and>
                \<not> isl (extract_text w (response_text result) prompt))) \<and>
   fst (extract_texts w urls prompt) =
     (case load_models w of
        Inl e \<Rightarrow> Inl e
      | Inr u \<Rightarrow> Inr (take 45 (snippets w prompt urls)))"
  using snippet_of_iff extract_texts_result by blast

text \<open>
  The instance with one URL that is answered with the status 200.
\<close>

theorem extract_texts_accepts_witness:
  "fst (extract_texts (status_world 200) [''http://a.org/x''] ''q'') =
     Inr [''http://a.org/x'' @ [CHR 0x0A] @ ''page'']"
proof -
  have h1: "load_models (status_world 200) = Inr ()"
    by (simp add: status_world_def quiet_world_def)
  have h2: "snippets (status_world 200) ''q'' [''http://a.org/x''] =
              [''http://a.org/x'' @ [CHR 0x0A] @ ''page'']"
    by code_simp
  show ?thesis
    using extract_texts_accepts_status_200
            [of "status_world 200" "''q''" "''http://a.org/x''" "[''http://a.org/x'']"] h1 h2
    by simp
qed

lemma status_200_value:
  "extract_texts (status_world 200) [''http://a.org/x''] ''q'' =
     (Inr [''http://a.org/x'' @ [CHR 0x0A] @ ''page''], [LoadModels, RequestsGet ''http://a.org/x''])"
  by code_simp

text \<open>
  C7 as stated fails: a response with the status 203, of the class 2xx, whose body
  \<open>extract_text\<close> summarises without an exception, is discarded.
\<close>

theorem status_203_counterexample:
  "requests_get (status_world 203) ''http://a.org/x'' = Inr (Response 203 ''page'') \<and>
   extract_text (status_world 203) ''page'' ''q'' = Inr ''page'' \<and>
   extract_texts (status_world 203) [''http://a.org/x''] ''q'' =
     (Inr [], [LoadModels, RequestsGet ''http://a.org/x''])"
  by code_simp

section \<open>The tool: a tool name that is not allowed\<close>

text \<open>
  C10, as the code has it. \<open>run\<close> reads \<open>kwargs["tool"]\<close>, \<open>kwargs["prompt"]\<close> and
  \<open>kwargs["api_keys"]["openai"]\<close> before it tests the tool name. With a tool name that
  is not in \<open>ALLOWED_TOOLS\<close>, \<open>run\<close> raises before any call of a service. The exception
  is the \<open>KeyError\<close> of \<open>"prompt"\<close> when there is no prompt, else that of \<open>"api_keys"\<close>
  when there are no keys, else that of \<open>"openai"\<close> when the keys have no such entry, and
  else the \<open>ValueError\<close> that names the tool.
\<close>

theorem run_rejects_unknown_tool:
  assumes "kw_tool kwargs = Some tool" and "tool \<notin> set ALLOWED_TOOLS"
  shows "run w kwargs =
           (Inl (case kw_prompt kwargs of
                   None \<Rightarrow> KeyError ''prompt''
                 | Some prompt \<Rightarrow>
                     (case kw_api_keys kwargs of
                        None \<Rightarrow> KeyError ''api_keys''
                      | Some api_keys \<Rightarrow>
                          (case map_of api_keys ''openai'' of
                             None \<Rightarrow> KeyError ''openai''
                           | Some openai_api_key \<Rightarrow>
                               ValueError (''Tool '' @ tool @ '' is not supported.'')))),
            [])"
  using assms by (auto simp: run_def Let_def split: option.splits)

text \<open>
  The instance with the tool name \<open>prediction-offline\<close>, a prompt and an OpenAI key.
\<close>

theorem run_rejects_unknown_tool_witness:
  "kw_tool unknown_tool_kwargs = Some ''prediction-offline'' \<and>
   ''prediction-offline'' \<notin> set ALLOWED_TOOLS \<and>
   run quiet_world unknown_tool_kwargs =
     (Inl (ValueError ''Tool prediction-offline is not supported.''), [])"
proof -
  have h1: "kw_tool unknown_tool_kwargs = Some ''prediction-offline''"
    by (simp add: unknown_tool_kwargs_def)
  have h2: "''prediction-offline'' \<notin> set ALLOWED_TOOLS"
    by (simp add: ALLOWED_TOOLS_def)
  show ?thesis
    using run_rejects_unknown_tool [OF h1 h2, of quiet_world] h1 h2
    by (simp add: unknown_tool_kwargs_def)
qed

text \<open>
  C10 as stated fails: without a prompt among the arguments, the exception is the
  \<open>KeyError\<close> of \<open>kwargs["prompt"]\<close>, not a \<open>ValueError\<close>.
\<close>

theorem missing_prompt_counterexample:
  "kw_tool no_prompt_kwargs = Some ''prediction-offline'' \<and>
   ''prediction-offline'' \<notin> set ALLOWED_TOOLS \<and>
   run quiet_world no_prompt_kwargs = (Inl (KeyError ''prompt''), [])"
  by (simp add: run_def no_prompt_kwargs_def unknown_tool_kwargs_def ALLOWED_TOOLS_def)

text \<open>
  The same arguments with keys that have no entry \<open>"openai"\<close>, and without keys.
\<close>

lemma missing_key_example:
  "run quiet_world (unknown_tool_kwargs\<lparr>kw_api_keys := Some []\<rparr>) = (Inl (KeyError ''openai''), []) \<and>
   run quiet_world (unknown_tool_kwargs\<lparr>kw_api_keys := None\<rparr>) = (Inl (KeyError ''api_keys''), [])"
  by (simp add: run_def unknown_tool_kwargs_def ALLOWED_TOOLS_def)

text \<open>
  With an allowed tool, \<open>run\<close> does call the services: the offline tool asks for the
  moderation of the prediction prompt and then for the completion.
\<close>

lemma run_offline_calls:
  "run quiet_world offline_kwargs =
     (Inr (''{}'', None),
      [ModerationCreate ''Will it rain tomorrow?2023-10-01'',
       ChatCompletionCreate ''gpt-3.5-turbo'' ''Will it rain tomorrow?2023-10-01''])"
  by code_simp

end
